theory Spec2Isabelle
  imports Main "HOL-Library.Word"
begin

section \<open>Collaborators of the table vector iterator\<close>

text \<open>
  The iterator of \<^verbatim>\<open>table_vector_iterator.cpp\<close> works on a storage table, a catalog
  accessor, a memory pool and a projected-columns buffer, classes of other files of the
  repository. Each of them is a record here; a method of the table, whose body is storage
  code, is a field of the record, so that every theorem about the iterator holds for
  every behaviour of that method.

  Table, column and block identifiers are \<^verbatim>\<open>uint32_t\<close>: \<^typ>\<open>32 word\<close>.
  A null pointer is \<^const>\<open>None\<close>; dereferencing it is the error
  \<open>NullDereference\<close>. \<^verbatim>\<open>TERRIER_ASSERT\<close> stops the process: the error
  \<open>TableMustExist\<close>.
\<close>

datatype error = TableMustExist | NullDereference | ScanFnNoReturn

text \<open>
  Modelled from the spec: \<^verbatim>\<open>storage::ProjectedColumns\<close>, the batch buffer, a class of
  the storage layer: a fixed-capacity region holding up to \<open>MaxTuples\<close> rows across
  the resolved column set. \<open>Size\<close> is its size in bytes (the destructor of the
  iterator reads it), \<open>Rows\<close> the rows the last batch fill left in it.
\<close>

record 'r ProjectedColumns =
  Size :: nat
  ColumnIds :: "32 word list"
  MaxTuples :: nat
  Rows :: "'r list"

text \<open>
  \<^verbatim>\<open>storage::ProjectedColumnsInitializer\<close>, as returned by the table: the two
  methods \<^verbatim>\<open>Init()\<close> calls on it, \<open>Initialize\<close> taking the address of the buffer.
\<close>

record 'r ProjectedColumnsInitializer =
  ProjectedColumnsSize :: nat
  Initialize :: "nat \<Rightarrow> 'r ProjectedColumns"

text \<open>
  \<^verbatim>\<open>storage::SqlTable\<close>: the methods the iterator and the orchestrator call.
  \<open>'it\<close> is \<^verbatim>\<open>DataTable::SlotIterator\<close>, compared for equality only.
  \<open>RangeScan\<close> takes the current cursor, the end cursor and the buffer, and returns
  the advanced cursor and the refilled buffer (the C++ method updates both through
  pointers; the transaction argument is opaque and left out). \<open>GetBlockListSize\<close> is
  the block count as the \<^verbatim>\<open>uint32_t\<close> bound of the block range it becomes.
\<close>

record ('it, 'r) SqlTable =
  GetBlockListSize :: "32 word"
  GetAllColOid :: "32 word list"
  InitializerForProjectedColumns :: "32 word list \<Rightarrow> nat \<Rightarrow> 'r ProjectedColumnsInitializer"
  beginAt :: "32 word \<Rightarrow> 'it"
  endAt :: "32 word \<Rightarrow> 'it"
  RangeScan :: "'it \<Rightarrow> 'it \<Rightarrow> 'r ProjectedColumns \<Rightarrow> 'it \<times> 'r ProjectedColumns"

text \<open>
  Modelled from the spec: the memory pool of the execution context (arena allocation:
  aligned allocate and deallocate of the backing memory of the batch buffer), a class of
  another file of the repository. The pool is the trace of the calls made on it.
\<close>

datatype pool_event = Allocated nat nat | Deallocated "nat option" nat

type_synonym MemoryPool = "pool_event list"

text \<open>
  Modelled from the spec: the allocation of the arena. It returns a fresh address, the
  position of the call in the trace.
\<close>

definition AllocateAligned :: "MemoryPool \<Rightarrow> nat \<Rightarrow> nat \<times> MemoryPool" where
  "AllocateAligned pool sz = (length pool, pool @ [Allocated (length pool) sz])"

text \<open>Modelled from the spec: the release of a buffer of the arena, null or not.\<close>

definition Deallocate :: "MemoryPool \<Rightarrow> nat option \<Rightarrow> nat \<Rightarrow> MemoryPool" where
  "Deallocate pool ptr sz = pool @ [Deallocated ptr sz]"

text \<open>The allocations and the releases a trace holds, each with address and size.\<close>

definition allocations :: "MemoryPool \<Rightarrow> (nat \<times> nat) list" where
  "allocations pool = concat (map (\<lambda>e. case e of Allocated p sz \<Rightarrow> [(p, sz)] | Deallocated _ _ \<Rightarrow> []) pool)"

definition deallocations :: "MemoryPool \<Rightarrow> (nat option \<times> nat) list" where
  "deallocations pool = concat (map (\<lambda>e. case e of Allocated _ _ \<Rightarrow> [] | Deallocated p sz \<Rightarrow> [(p, sz)]) pool)"

text \<open>
  \<^verbatim>\<open>exec::ExecutionContext\<close>: \<open>GetTable\<close> is \<^verbatim>\<open>GetAccessor()->GetTable(oid)\<close>,
  a null result being \<^const>\<open>None\<close>.
\<close>

record ('it, 'r) ExecutionContext =
  GetTable :: "32 word \<Rightarrow> ('it, 'r) SqlTable option"
  GetMemoryPool :: MemoryPool

text \<open>
  Modelled from the spec: \<^verbatim>\<open>ProjectedColumnsIterator\<close>, the row cursor over the
  batch buffer, a class of another file of the repository. The spec has it as a
  restartable cursor bound to the current batch buffer, iterating forward over the rows
  currently in the buffer. The iterator itself only calls \<^verbatim>\<open>SetProjectedColumn\<close>.
\<close>

record 'r ProjectedColumnsIterator =
  projected_column :: "'r ProjectedColumns option"
  curr_idx :: nat

text \<open>
  Modelled from the spec: \<^verbatim>\<open>ProjectedColumnsIterator::SetProjectedColumn\<close> binds the
  cursor to a buffer and restarts it.
\<close>

definition SetProjectedColumn ::
  "'r ProjectedColumnsIterator \<Rightarrow> 'r ProjectedColumns \<Rightarrow> 'r ProjectedColumnsIterator" where
  "SetProjectedColumn p pc = p\<lparr>projected_column := Some pc, curr_idx := 0\<rparr>"

text \<open>
  Modelled from the spec: \<^verbatim>\<open>ProjectedColumnsIterator::HasNext\<close>, whether a row of the
  buffer is left under the cursor.
\<close>

definition HasNext :: "'r ProjectedColumnsIterator \<Rightarrow> bool" where
  "HasNext p = (case projected_column p of None \<Rightarrow> False | Some pc \<Rightarrow> curr_idx p < length (Rows pc))"

text \<open>
  Modelled from the spec: \<^verbatim>\<open>ProjectedColumnsIterator::Advance\<close>, the step to the next
  row.
\<close>

definition pci_Advance :: "'r ProjectedColumnsIterator \<Rightarrow> 'r ProjectedColumnsIterator" where
  "pci_Advance p = p\<lparr>curr_idx := curr_idx p + 1\<rparr>"

section \<open>TableVectorIterator\<close>

text \<open>
  The members of the class, without the trailing underscore of the C++ names. The
  execution context the C++ object points to is passed to the operations that use it.
\<close>

record ('it, 'r) TableVectorIterator =
  table_oid :: "32 word"
  col_oids :: "32 word list"
  start_block_idx :: "32 word"
  end_block_idx :: "32 word"
  table :: "('it, 'r) SqlTable option"
  buffer :: "nat option"
  projected_columns :: "'r ProjectedColumns option"
  initialized :: bool
  iter :: "'it option"
  iter_end :: "'it option"
  pci :: "'r ProjectedColumnsIterator"

text \<open>
  The six-argument constructor: \<open>col_oids\<close> is the array the pointer designates, of
  which the first \<open>num_oids\<close> entries are copied. The members it does not mention
  take their defaults, which the header gives: the pointers are null and
  \<open>initialized\<close> is false (\<^verbatim>\<open>Advance()\<close> and \<^verbatim>\<open>Reset()\<close> test it for an
  iterator on which \<^verbatim>\<open>Init()\<close> has not run).
\<close>

definition TableVectorIterator6 ::
  "32 word \<Rightarrow> 32 word list \<Rightarrow> 32 word \<Rightarrow> 32 word \<Rightarrow> 32 word \<Rightarrow> ('it, 'r) TableVectorIterator" where
  "TableVectorIterator6 oid cols num_oids start_idx end_idx =
     \<lparr>table_oid = oid, col_oids = take (unat num_oids) cols,
      start_block_idx = start_idx, end_block_idx = end_idx,
      table = None, buffer = None, projected_columns = None, initialized = False,
      iter = None, iter_end = None,
      pci = \<lparr>projected_column = None, curr_idx = 0\<rparr>\<rparr>"

text \<open>The four-argument constructor delegates with the block range \<open>0 .. UINT32_MAX\<close>.\<close>

definition TableVectorIterator4 ::
  "32 word \<Rightarrow> 32 word list \<Rightarrow> 32 word \<Rightarrow> ('it, 'r) TableVectorIterator" where
  "TableVectorIterator4 oid cols num_oids = TableVectorIterator6 oid cols num_oids 0 (- 1)"

text \<open>
  \<^verbatim>\<open>Init()\<close>. \<open>V\<close> is \<^verbatim>\<open>common::Constants::K_DEFAULT_VECTOR_SIZE\<close>, a constant
  of another file of the repository. The result is the returned flag, the iterator and
  the execution context (whose memory pool has served the allocation).
\<close>

definition Init ::
  "nat \<Rightarrow> ('it, 'r) ExecutionContext \<Rightarrow> ('it, 'r) TableVectorIterator \<Rightarrow>
   error + (bool \<times> ('it, 'r) TableVectorIterator \<times> ('it, 'r) ExecutionContext)" where
  "Init V ctx s =
     (case GetTable ctx (table_oid s) of
        None \<Rightarrow> Inl TableMustExist
      | Some t \<Rightarrow>
          let cols = (if col_oids s = [] then GetAllColOid t else col_oids s);
              pc_init = InitializerForProjectedColumns t cols V;
              (buf, pool) = AllocateAligned (GetMemoryPool ctx) (ProjectedColumnsSize pc_init);
              pc = Initialize pc_init buf
          in Inr (True,
                  s\<lparr>table := Some t, col_oids := cols, buffer := Some buf,
                    projected_columns := Some pc, initialized := True,
                    iter := Some (beginAt t (start_block_idx s)),
                    iter_end := Some (endAt t (end_block_idx s))\<rparr>,
                  ctx\<lparr>GetMemoryPool := pool\<rparr>))"

text \<open>\<^verbatim>\<open>Advance()\<close>: the returned flag and the iterator after the call.\<close>

definition Advance ::
  "('it, 'r) TableVectorIterator \<Rightarrow> error + (bool \<times> ('it, 'r) TableVectorIterator)" where
  "Advance s =
     (if \<not> initialized s then Inr (False, s)
      else case iter s of
        None \<Rightarrow> Inl NullDereference
      | Some i \<Rightarrow>
          (case iter_end s of
             None \<Rightarrow> Inl NullDereference
           | Some e \<Rightarrow>
               if i = e then Inr (False, s)
               else (case table s of
                  None \<Rightarrow> Inl NullDereference
                | Some t \<Rightarrow>
                    (case projected_columns s of
                       None \<Rightarrow> Inl NullDereference
                     | Some pc \<Rightarrow>
                         let (i', pc') = RangeScan t i e pc
                         in Inr (True,
                                 s\<lparr>iter := Some i', projected_columns := Some pc',
                                   pci := SetProjectedColumn (pci s) pc'\<rparr>)))))"

text \<open>\<^verbatim>\<open>Reset()\<close>.\<close>

definition Reset :: "('it, 'r) TableVectorIterator \<Rightarrow> error + ('it, 'r) TableVectorIterator" where
  "Reset s =
     (if \<not> initialized s then Inr s
      else case table s of
        None \<Rightarrow> Inl NullDereference
      | Some t \<Rightarrow> Inr (s\<lparr>iter := Some (beginAt t (start_block_idx s))\<rparr>))"

text \<open>
  The destructor: \<^verbatim>\<open>Deallocate(buffer_, projected_columns_->Size())\<close>, with no test
  of \<open>initialized\<close>. The result is the execution context after the call.
\<close>

definition destroy ::
  "('it, 'r) ExecutionContext \<Rightarrow> ('it, 'r) TableVectorIterator \<Rightarrow> error + ('it, 'r) ExecutionContext" where
  "destroy ctx s =
     (case projected_columns s of
        None \<Rightarrow> Inl NullDereference
      | Some pc \<Rightarrow> Inr (ctx\<lparr>GetMemoryPool := Deallocate (GetMemoryPool ctx) (buffer s) (Size pc)\<rparr>))"

text \<open>
  What \<^verbatim>\<open>Init()\<close> establishes and \<^verbatim>\<open>Advance()\<close> and \<^verbatim>\<open>Reset()\<close> keep: once
  \<open>initialized\<close> is set, the table, the buffer and both cursors are there. The
  constructors give it as well, \<open>initialized\<close> being false.
\<close>

definition tvi_inv :: "('it, 'r) TableVectorIterator \<Rightarrow> bool" where
  "tvi_inv s = (initialized s \<longrightarrow>
     table s \<noteq> None \<and> projected_columns s \<noteq> None \<and> iter s \<noteq> None \<and> iter_end s \<noteq> None)"

section \<open>The parallel scan\<close>

subsection \<open>Splitting the block range\<close>

text \<open>
  \<^verbatim>\<open>tbb::blocked_range<uint32_t>\<close> and \<^verbatim>\<open>tbb::parallel_for\<close> belong to the
  Threading Building Blocks library, which the orchestrator calls; they are modelled after
  the library's \<^verbatim>\<open>blocked_range.h\<close>: a range is empty unless \<open>begin < end\<close>, it is
  divisible when its size exceeds the grain size, and the splitting constructor cuts it at
  \<open>begin + (end - begin) / 2\<close>, the lower half staying in the range that was split.
  The bounds are \<^verbatim>\<open>uint32_t\<close> values; every bound computed lies between the begin and
  the end of the range that was split, so nothing wraps and the bounds are naturals here.
\<close>

record blocked_range =
  my_begin :: nat
  my_end :: nat
  my_grainsize :: nat

definition range_empty :: "blocked_range \<Rightarrow> bool" where
  "range_empty r = (\<not> my_begin r < my_end r)"

definition range_size :: "blocked_range \<Rightarrow> nat" where
  "range_size r = my_end r - my_begin r"

definition is_divisible :: "blocked_range \<Rightarrow> bool" where
  "is_divisible r = (my_grainsize r < range_size r)"

definition do_split :: "blocked_range \<Rightarrow> blocked_range \<times> blocked_range" where
  "do_split r =
     (let middle = my_begin r + (my_end r - my_begin r) div 2
      in (r\<lparr>my_end := middle\<rparr>, r\<lparr>my_begin := middle\<rparr>))"

text \<open>
  \<^verbatim>\<open>parallel_for(range, body)\<close> runs with the library's default partitioner, which
  splits a range only if it is divisible, and then only if the scheduler finds it worth
  while. What the scheduler decides, and which worker thread runs the body on a
  subrange, is not determined by the program: both are parameters, so that theorems hold
  for every schedule. With \<open>splits = (\<lambda>_. True)\<close> every divisible range is split.
  The library requires a positive grain size.
\<close>

record scheduler =
  splits :: "blocked_range \<Rightarrow> bool"
  worker :: "blocked_range \<Rightarrow> nat"

function split_ranges :: "scheduler \<Rightarrow> blocked_range \<Rightarrow> blocked_range list" where
  "split_ranges sched r =
     (if 0 < my_grainsize r \<and> is_divisible r \<and> splits sched r
      then split_ranges sched (fst (do_split r)) @ split_ranges sched (snd (do_split r))
      else [r])"
  by pat_completeness auto
termination
  by (relation "measure (\<lambda>(sched, r). range_size r)")
     (auto simp: is_divisible_def range_size_def do_split_def Let_def)

declare split_ranges.simps [simp del]

text \<open>\<^verbatim>\<open>parallel_for\<close> does nothing on an empty range.\<close>

definition parallel_for_ranges :: "scheduler \<Rightarrow> blocked_range \<Rightarrow> blocked_range list" where
  "parallel_for_ranges sched r = (if range_empty r then [] else split_ranges sched r)"

text \<open>The blocks of a range: the half-open interval from its begin to its end.\<close>

definition block_set :: "blocked_range \<Rightarrow> nat set" where
  "block_set r = {my_begin r..<my_end r}"

subsection \<open>Thread states\<close>

text \<open>
  Modelled from the spec: \<^verbatim>\<open>ThreadStateContainer\<close>, declared in another file of the
  repository. \<^verbatim>\<open>AccessThreadStateOfCurrentThread()\<close> returns the slot of the calling
  worker, and the caller folds over all workers' slots after the scan. A slot comes into
  being, in the state the initialisation hook leaves it in, the first time its worker asks
  for it. The slots are an association list from worker to state.
\<close>

record 'tls ThreadStateContainer =
  init_state :: 'tls
  states :: "(nat \<times> 'tls) list"

text \<open>
  Modelled from the spec: \<^verbatim>\<open>AccessThreadStateOfCurrentThread()\<close>, the slot of the
  calling worker \<open>w\<close>, fresh from the initialisation hook if the worker has none yet.
\<close>

definition AccessThreadStateOfCurrentThread :: "'tls ThreadStateContainer \<Rightarrow> nat \<Rightarrow> 'tls" where
  "AccessThreadStateOfCurrentThread tsc w =
     (case map_of (states tsc) w of None \<Rightarrow> init_state tsc | Some x \<Rightarrow> x)"

text \<open>
  Modelled from the spec: what a scan function leaves in the slot of its worker (it
  writes through the pointer the container handed out).
\<close>

fun update_slot :: "nat \<Rightarrow> 'tls \<Rightarrow> (nat \<times> 'tls) list \<Rightarrow> (nat \<times> 'tls) list" where
  "update_slot w x [] = [(w, x)]"
| "update_slot w x ((w', y) # ps) = (if w = w' then (w, x) # ps else (w', y) # update_slot w x ps)"

text \<open>Modelled from the spec: the container once worker \<open>w\<close> has written its slot.\<close>

definition store_thread_state ::
  "'tls ThreadStateContainer \<Rightarrow> nat \<Rightarrow> 'tls \<Rightarrow> 'tls ThreadStateContainer" where
  "store_thread_state tsc w x = tsc\<lparr>states := update_slot w x (states tsc)\<rparr>"

subsection \<open>ScanTask\<close>

text \<open>
  The members of \<^verbatim>\<open>ScanTask\<close>; \<open>table_id\<close> is the \<^verbatim>\<open>uint16_t\<close> member. The
  scan function receives the query state, the worker's state and the iterator; it returns
  the worker's state and the iterator as it leaves them, an error it ran into, or
  \<^const>\<open>None\<close> when it does not return.
\<close>

type_synonym ('q, 'tls, 'it, 'r) ScanFn =
  "'q \<Rightarrow> 'tls \<Rightarrow> ('it, 'r) TableVectorIterator \<Rightarrow> (error + 'tls \<times> ('it, 'r) TableVectorIterator) option"

record ('q, 'tls, 'it, 'r) ScanTask =
  table_id :: "16 word"
  query_state :: 'q
  scanner :: "('q, 'tls, 'it, 'r) ScanFn"

text \<open>The constructor; its \<open>table_id\<close> parameter is a \<^verbatim>\<open>uint16_t\<close>.\<close>

definition ScanTask_ctor ::
  "16 word \<Rightarrow> 'q \<Rightarrow> ('q, 'tls, 'it, 'r) ScanFn \<Rightarrow> ('q, 'tls, 'it, 'r) ScanTask" where
  "ScanTask_ctor tid qstate scan_fn = \<lparr>table_id = tid, query_state = qstate, scanner = scan_fn\<rparr>"

text \<open>How a task ended: on the early return after a failed \<^verbatim>\<open>Init()\<close>, or after the scan.\<close>

datatype task_outcome = InitFailed | Scanned

text \<open>
  The iterator a task builds for a block range: the \<^verbatim>\<open>uint16_t\<close> member is widened to
  the \<^verbatim>\<open>uint32_t\<close> parameter of the constructor.
\<close>

definition task_iterator ::
  "('q, 'tls, 'it, 'r) ScanTask \<Rightarrow> blocked_range \<Rightarrow> ('it, 'r) TableVectorIterator" where
  "task_iterator task block_range =
     TableVectorIterator6 (ucast (table_id task)) [] 0
       (of_nat (my_begin block_range)) (of_nat (my_end block_range))"

text \<open>
  \<^verbatim>\<open>ScanTask::operator()\<close> on one block range, run by worker \<open>w\<close>. The iterator is a
  local object: its destructor runs when the call returns, on either path.
\<close>

definition ScanTask_call ::
  "nat \<Rightarrow> ('q, 'tls, 'it, 'r) ScanTask \<Rightarrow> nat \<Rightarrow> blocked_range \<Rightarrow>
   'tls ThreadStateContainer \<times> ('it, 'r) ExecutionContext \<Rightarrow>
   error + (task_outcome \<times> 'tls ThreadStateContainer \<times> ('it, 'r) ExecutionContext)" where
  "ScanTask_call V task w block_range st =
     (case st of (tsc, ctx) \<Rightarrow>
      (case Init V ctx (task_iterator task block_range) of
         Inl e \<Rightarrow> Inl e
       | Inr (ok, it1, ctx1) \<Rightarrow>
           if \<not> ok then
             (case destroy ctx1 it1 of
                Inl e \<Rightarrow> Inl e
              | Inr ctx2 \<Rightarrow> Inr (InitFailed, tsc, ctx2))
           else
             (case scanner task (query_state task) (AccessThreadStateOfCurrentThread tsc w) it1 of
                None \<Rightarrow> Inl ScanFnNoReturn
              | Some (Inl e) \<Rightarrow> Inl e
              | Some (Inr (thread_state, it2)) \<Rightarrow>
                  (case destroy ctx1 it2 of
                     Inl e \<Rightarrow> Inl e
                   | Inr ctx2 \<Rightarrow> Inr (Scanned, store_thread_state tsc w thread_state, ctx2)))))"

text \<open>
  The tasks of one \<^verbatim>\<open>parallel_for\<close>, run to completion one after the other in the
  order of their block ranges; an error stops the process. The result lists each range
  with the outcome of its task. (A worker's slot is touched by that worker's tasks only,
  which do run one after the other.)
\<close>

fun run_tasks ::
  "nat \<Rightarrow> scheduler \<Rightarrow> ('q, 'tls, 'it, 'r) ScanTask \<Rightarrow> blocked_range list \<Rightarrow>
   'tls ThreadStateContainer \<times> ('it, 'r) ExecutionContext \<Rightarrow>
   error + ((blocked_range \<times> task_outcome) list \<times> 'tls ThreadStateContainer \<times> ('it, 'r) ExecutionContext)" where
  "run_tasks V sched task [] st = Inr ([], st)"
| "run_tasks V sched task (r # rs) st =
     (case ScanTask_call V task (worker sched r) r st of
        Inl e \<Rightarrow> Inl e
      | Inr (out, st1) \<Rightarrow>
          (case run_tasks V sched task rs st1 of
             Inl e \<Rightarrow> Inl e
           | Inr (outs, st2) \<Rightarrow> Inr ((r, out) # outs, st2)))"

text \<open>
  \<^verbatim>\<open>tbb::parallel_for(block_range, task)\<close>: the task runs on each range of the
  partition, and the call returns once all have run.
\<close>

definition parallel_for ::
  "nat \<Rightarrow> scheduler \<Rightarrow> blocked_range \<Rightarrow> ('q, 'tls, 'it, 'r) ScanTask \<Rightarrow>
   'tls ThreadStateContainer \<times> ('it, 'r) ExecutionContext \<Rightarrow>
   error + ((blocked_range \<times> task_outcome) list \<times> 'tls ThreadStateContainer \<times> ('it, 'r) ExecutionContext)" where
  "parallel_for V sched block_range task st =
     run_tasks V sched task (parallel_for_ranges sched block_range) st"

subsection \<open>ParallelScan\<close>

text \<open>
  \<^verbatim>\<open>TableVectorIterator::ParallelScan\<close>. The \<^verbatim>\<open>uint32_t\<close> table identifier is
  narrowed to the \<^verbatim>\<open>uint16_t\<close> parameter of the \<^verbatim>\<open>ScanTask\<close> constructor. The
  result is the returned flag, the tasks that ran, the thread states and the execution
  context. The timer and the line printed at the end are left out.
\<close>

definition ParallelScan ::
  "nat \<Rightarrow> scheduler \<Rightarrow> 32 word \<Rightarrow> 'q \<Rightarrow> 'tls ThreadStateContainer \<Rightarrow>
   ('q, 'tls, 'it, 'r) ScanFn \<Rightarrow> ('it, 'r) ExecutionContext \<Rightarrow>
   error + (bool \<times> (blocked_range \<times> task_outcome) list \<times>
            'tls ThreadStateContainer \<times> ('it, 'r) ExecutionContext)" where
  "ParallelScan V sched oid qstate thread_states scan_fn exec_ctx =
     (case GetTable exec_ctx oid of
        None \<Rightarrow> Inr (False, [], thread_states, exec_ctx)
      | Some tbl \<Rightarrow>
          let block_count = GetBlockListSize tbl;
              min_grain_size = 3;
              block_range = \<lparr>my_begin = 0, my_end = unat block_count, my_grainsize = min_grain_size\<rparr>
          in (case parallel_for V sched block_range
                     (ScanTask_ctor (ucast oid) qstate scan_fn)
                     (thread_states, exec_ctx) of
                Inl e \<Rightarrow> Inl e
              | Inr (tasks, tsc, ctx) \<Rightarrow> Inr (True, tasks, tsc, ctx)))"

section \<open>A storage table\<close>

text \<open>
  The storage table behind \<^verbatim>\<open>SqlTable\<close> (\<^verbatim>\<open>beginAt\<close>,
  \<^verbatim>\<open>endAt\<close>, \<^verbatim>\<open>RangeScan\<close>, \<^verbatim>\<open>GetAllColOid\<close>, \<^verbatim>\<open>GetBlockListSize\<close>),
  implemented in the storage layer of the repository. A table is an ordered sequence of
  blocks, each holding the rows a scan finds in it. A cursor is the number of rows before
  its position; the cursor at block index \<open>i\<close> stands before the first row of block
  \<open>i\<close>, and at the end of the table for every index from the block count on (the
  sequential iterator asks for the end at \<^verbatim>\<open>UINT32_MAX\<close>). A batch fill takes the next
  run of rows from the current cursor, at most the capacity of the buffer and not beyond
  the end cursor, and advances the cursor by as many.
\<close>

text \<open>
  Modelled from the spec: the cursor at a block index, the number of rows in the blocks
  before it.
\<close>

definition slots_before :: "'r list list \<Rightarrow> nat \<Rightarrow> nat" where
  "slots_before blocks i = length (concat (take i blocks))"

text \<open>
  Modelled from the spec: the storage table with the given columns and blocks, its
  cursors and its batch fill as described above. The size of the buffer in bytes is one
  unit for each row and column.
\<close>

definition storage_table :: "32 word list \<Rightarrow> 'r list list \<Rightarrow> (nat, 'r) SqlTable" where
  "storage_table cols blocks =
     \<lparr>GetBlockListSize = of_nat (length blocks),
      GetAllColOid = cols,
      InitializerForProjectedColumns = (\<lambda>cs V.
        \<lparr>ProjectedColumnsSize = V * length cs,
         Initialize = (\<lambda>buf. \<lparr>Size = V * length cs, ColumnIds = cs, MaxTuples = V, Rows = []\<rparr>)\<rparr>),
      beginAt = (\<lambda>i. slots_before blocks (unat i)),
      endAt = (\<lambda>i. slots_before blocks (unat i)),
      RangeScan = (\<lambda>cur end_cur pc.
        let n = min (MaxTuples pc) (end_cur - cur)
        in (cur + n, pc\<lparr>Rows := take n (drop cur (concat blocks))\<rparr>))\<rparr>"

section \<open>The scans of the test suite\<close>

text \<open>
  \<^verbatim>\<open>ParallelScanTest\<close> of \<^verbatim>\<open>table_vector_iterator_test.cpp\<close>: the worker's state is
  a \<^verbatim>\<open>Counter\<close> with a \<^verbatim>\<open>uint32_t\<close> field, which the initialisation hook sets to 0.
\<close>

record Counter =
  c :: "32 word"

text \<open>The inner loop of the scan function: one increment for each row under the row cursor.\<close>

function count_rows ::
  "'r ProjectedColumnsIterator \<Rightarrow> Counter \<Rightarrow> 'r ProjectedColumnsIterator \<times> Counter" where
  "count_rows p counter =
     (if HasNext p then count_rows (pci_Advance p) (counter\<lparr>c := c counter + 1\<rparr>) else (p, counter))"
  by pat_completeness auto
termination
  by (relation "measure (\<lambda>(p, counter).
        case projected_column p of None \<Rightarrow> 0 | Some pc \<Rightarrow> length (Rows pc) - curr_idx p)")
     (auto simp: HasNext_def pci_Advance_def split: option.splits)

declare count_rows.simps [simp del]

text \<open>
  The outer loop \<^verbatim>\<open>while (tvi->Advance())\<close>. Nothing in the iterator bounds the number
  of rounds, so the loop is a partial function: \<^const>\<open>None\<close> when it runs forever.
\<close>

partial_function (option) scan_loop ::
  "Counter \<Rightarrow> ('it, 'r) TableVectorIterator \<Rightarrow>
   (error + Counter \<times> ('it, 'r) TableVectorIterator) option" where
  "scan_loop counter tvi =
     (case Advance tvi of
        Inl e \<Rightarrow> Some (Inl e)
      | Inr (has_more, tvi1) \<Rightarrow>
          if has_more
          then (case count_rows (pci tvi1) counter of
                  (p, counter1) \<Rightarrow> scan_loop counter1 (tvi1\<lparr>pci := p\<rparr>))
          else Some (Inr (counter, tvi1)))"

text \<open>The scan function of the test; it does not look at the query state.\<close>

definition test_scanner :: "('q, Counter, 'it, 'r) ScanFn" where
  "test_scanner state tls tvi = scan_loop tls tvi"

text \<open>
  Modelled from the spec: \<^verbatim>\<open>ThreadStateContainer::ForEach\<close>, declared in another file
  of the repository: the caller's fold over all workers' final slots.
\<close>

definition ForEach :: "'tls ThreadStateContainer \<Rightarrow> ('tls \<Rightarrow> 'a \<Rightarrow> 'a) \<Rightarrow> 'a \<Rightarrow> 'a" where
  "ForEach tsc f acc = fold (\<lambda>(w, x). f x) (states tsc) acc"

text \<open>The container after \<^verbatim>\<open>Reset(sizeof(Counter), init_count, nullptr, nullptr)\<close>.\<close>

definition test_thread_states :: "Counter ThreadStateContainer" where
  "test_thread_states = \<lparr>init_state = \<lparr>c = 0\<rparr>, states = []\<rparr>"

text \<open>
  The parallel scan of the test followed by the sum of all counters
  (\<^verbatim>\<open>aggregate_tuple_count\<close>, a \<^verbatim>\<open>uint32_t\<close>). The call in the test passes a
  database identifier and a vector size as well, which the entry point of
  \<^verbatim>\<open>table_vector_iterator.cpp\<close> does not take; the query state is null.
\<close>

definition aggregate_tuple_count ::
  "nat \<Rightarrow> scheduler \<Rightarrow> 32 word \<Rightarrow> ('it, 'r) ExecutionContext \<Rightarrow> error + 32 word" where
  "aggregate_tuple_count V sched oid exec_ctx =
     (case ParallelScan V sched oid () test_thread_states test_scanner exec_ctx of
        Inl e \<Rightarrow> Inl e
      | Inr (ok, tasks, tsc, ctx) \<Rightarrow> Inr (ForEach tsc (\<lambda>counter n. n + c counter) 0))"

text \<open>
  The sequential scan of \<^verbatim>\<open>SimpleIteratorTest\<close>: one iterator over the whole table,
  built by the four-argument constructor, and the number of rows it sees
  (\<^verbatim>\<open>num_tuples\<close>, a \<^verbatim>\<open>uint32_t\<close>). The test does not look at what
  \<^verbatim>\<open>Init()\<close> returns. Its loop is the loop of the scan function; it resets the row
  cursor after each batch, which the next \<^verbatim>\<open>Advance()\<close> does in any case.
\<close>

definition num_tuples ::
  "nat \<Rightarrow> 32 word \<Rightarrow> 32 word list \<Rightarrow> ('it, 'r) ExecutionContext \<Rightarrow> error + 32 word" where
  "num_tuples V oid cols exec_ctx =
     (case Init V exec_ctx (TableVectorIterator4 oid cols (of_nat (length cols))) of
        Inl e \<Rightarrow> Inl e
      | Inr (ok, it1, ctx1) \<Rightarrow>
          (case scan_loop \<lparr>c = 0\<rparr> it1 of
             None \<Rightarrow> Inl ScanFnNoReturn
           | Some (Inl e) \<Rightarrow> Inl e
           | Some (Inr (counter, it2)) \<Rightarrow> Inr (c counter)))"

section \<open>Notions used in the properties\<close>

text \<open>An initialised iterator over a storage table, between the cursors \<open>i\<close> and \<open>e\<close>.\<close>

definition scanning ::
  "'r list list \<Rightarrow> nat \<Rightarrow> nat \<Rightarrow> nat \<Rightarrow> (nat, 'r) TableVectorIterator \<Rightarrow> bool" where
  "scanning blocks V i e s =
     (initialized s \<and> (\<exists>cols. table s = Some (storage_table cols blocks)) \<and>
      iter s = Some i \<and> iter_end s = Some e \<and>
      (\<exists>pc. projected_columns s = Some pc \<and> MaxTuples pc = V))"

text \<open>The rows of a storage table that lie in the blocks of a range.\<close>

definition rows_in :: "'r list list \<Rightarrow> blocked_range \<Rightarrow> nat" where
  "rows_in blocks r = slots_before blocks (my_end r) - slots_before blocks (my_begin r)"

text \<open>The sum of all workers' counters.\<close>

definition total :: "Counter ThreadStateContainer \<Rightarrow> 32 word" where
  "total tsc = ForEach tsc (\<lambda>counter n. n + c counter) 0"

section \<open>Concrete tables and schedules\<close>

text \<open>A table of five blocks and eight rows, registered under the identifier 7.\<close>

definition demo_table :: "(nat, nat) SqlTable" where
  "demo_table = storage_table [1, 2] [[10, 11], [12], [13, 14, 15], [16], [17]]"

definition demo_ctx :: "(nat, nat) ExecutionContext" where
  "demo_ctx = \<lparr>GetTable = [7 \<mapsto> demo_table], GetMemoryPool = []\<rparr>"

text \<open>The iterator over the whole of that table once \<^verbatim>\<open>Init()\<close> has run, with \<open>V = 2\<close>.\<close>

definition demo_iterator :: "(nat, nat) TableVectorIterator" where
  "demo_iterator =
     \<lparr>table_oid = 7, col_oids = [1], start_block_idx = 0, end_block_idx = - 1,
      table = Some demo_table, buffer = Some 0,
      projected_columns = Some \<lparr>Size = 2, ColumnIds = [1], MaxTuples = 2, Rows = []\<rparr>,
      initialized = True, iter = Some 0, iter_end = Some 8,
      pci = \<lparr>projected_column = None, curr_idx = 0\<rparr>\<rparr>"

text \<open>A table without blocks, registered under the identifier 9.\<close>

definition empty_ctx :: "(nat, nat) ExecutionContext" where
  "empty_ctx = \<lparr>GetTable = [9 \<mapsto> storage_table [1] []], GetMemoryPool = []\<rparr>"

text \<open>
  A table of one block whose column set is empty, registered under the identifier 5, and
  the iterator over its first block, built with an empty column request, once
  \<^verbatim>\<open>Init()\<close> has run with \<open>V = 2\<close>.
\<close>

definition nocol_ctx :: "(nat, nat) ExecutionContext" where
  "nocol_ctx = \<lparr>GetTable = [5 \<mapsto> storage_table [] [[1]]], GetMemoryPool = []\<rparr>"

definition nocol_iterator :: "(nat, nat) TableVectorIterator" where
  "nocol_iterator =
     \<lparr>table_oid = 5, col_oids = [], start_block_idx = 0, end_block_idx = 1,
      table = Some (storage_table [] [[1]]), buffer = Some 0,
      projected_columns = Some \<lparr>Size = 0, ColumnIds = [], MaxTuples = 2, Rows = []\<rparr>,
      initialized = True, iter = Some 0, iter_end = Some 1,
      pci = \<lparr>projected_column = None, curr_idx = 0\<rparr>\<rparr>"

text \<open>
  A catalog whose only table has an identifier beyond 16 bits, and one where the
  identifier it is cut down to belongs to another table, of five blocks without rows.
\<close>

definition wide_ctx :: "(nat, nat) ExecutionContext" where
  "wide_ctx = \<lparr>GetTable = [65543 \<mapsto> demo_table], GetMemoryPool = []\<rparr>"

definition wide_ctx2 :: "(nat, nat) ExecutionContext" where
  "wide_ctx2 = \<lparr>GetTable = [65543 \<mapsto> demo_table, 7 \<mapsto> storage_table [1, 2] [[], [], [], [], []]],
               GetMemoryPool = []\<rparr>"

text \<open>The schedule that splits every divisible range and runs every task on worker 0.\<close>

definition always_split :: scheduler where
  "always_split = \<lparr>splits = (\<lambda>r. True), worker = (\<lambda>r. 0)\<rparr>"

section \<open>Properties of the iterator\<close>

lemma tvi_inv_constructor: "tvi_inv (TableVectorIterator6 oid cols num_oids start_idx end_idx)"
  by (simp add: tvi_inv_def TableVectorIterator6_def)

lemma tvi_inv_Init: "Init V ctx s = Inr (ok, s', ctx') \<Longrightarrow> tvi_inv s'"
  by (auto simp: Init_def tvi_inv_def Let_def split: option.splits prod.splits)

lemma tvi_inv_Advance: "tvi_inv s \<Longrightarrow> Advance s = Inr (ok, s') \<Longrightarrow> tvi_inv s'"
  by (auto simp: Advance_def tvi_inv_def Let_def split: option.splits prod.splits if_splits)

lemma tvi_inv_Reset: "tvi_inv s \<Longrightarrow> Reset s = Inr s' \<Longrightarrow> tvi_inv s'"
  by (auto simp: Reset_def tvi_inv_def split: option.splits if_splits)

lemma unat_max32: "unat (- 1 :: 32 word) = 4294967295"
  by (simp add: unsigned_minus_1_eq_mask mask_eq_exp_minus_1)

lemma demo_iterator_Init:
  "Init 2 demo_ctx (TableVectorIterator4 7 [1] 1) =
     Inr (True, demo_iterator, demo_ctx\<lparr>GetMemoryPool := [Allocated 0 2]\<rparr>)"
  by (simp add: Init_def demo_ctx_def demo_iterator_def TableVectorIterator4_def
      TableVectorIterator6_def demo_table_def storage_table_def slots_before_def
      AllocateAligned_def unat_max32 Let_def)

text \<open>
  C1. On an iterator in a state the class can be in (\<open>tvi_inv\<close>), \<^verbatim>\<open>Advance()\<close>
  returns false, leaving the iterator as it is, exactly when \<open>initialized\<close> is not set
  or the current cursor equals the end cursor. Otherwise it calls \<^verbatim>\<open>RangeScan\<close> of the
  table with the current cursor, the end cursor and the buffer, takes the cursor and the
  buffer that call gives back, binds the row cursor to that buffer, and returns true.
\<close>

theorem Advance_returns:
  assumes "tvi_inv s"
  shows "if \<not> initialized s \<or> iter s = iter_end s
         then Advance s = Inr (False, s)
         else \<exists>t i e pc. table s = Some t \<and> iter s = Some i \<and> iter_end s = Some e \<and>
                projected_columns s = Some pc \<and>
                Advance s = Inr (True,
                  s\<lparr>iter := Some (fst (RangeScan t i e pc)),
                    projected_columns := Some (snd (RangeScan t i e pc)),
                    pci := SetProjectedColumn (pci s) (snd (RangeScan t i e pc))\<rparr>)"
  using assms
  by (auto simp: Advance_def tvi_inv_def split: option.splits prod.splits)

theorem Advance_returns_witness:
  "tvi_inv demo_iterator \<and>
   Advance demo_iterator = Inr (True,
     demo_iterator\<lparr>iter := Some 2,
       projected_columns := Some \<lparr>Size = 2, ColumnIds = [1], MaxTuples = 2, Rows = [10, 11]\<rparr>,
       pci := \<lparr>projected_column = Some \<lparr>Size = 2, ColumnIds = [1], MaxTuples = 2, Rows = [10, 11]\<rparr>,
               curr_idx = 0\<rparr>\<rparr>)"
proof -
  have inv: "tvi_inv demo_iterator"
    by (simp add: tvi_inv_def demo_iterator_def)
  show ?thesis
    using inv Advance_returns [OF inv]
    by (simp add: demo_iterator_def demo_table_def storage_table_def SetProjectedColumn_def)
qed

text \<open>
  C7. When the table of the iterator resolves and it has no block to scan (the table is
  a storage table without blocks, or the cursor at the start block equals the cursor at
  the end block), \<^verbatim>\<open>Init()\<close> returns true and \<^verbatim>\<open>Advance()\<close> then returns false and
  leaves the iterator as it is, so that every later call returns false as well.
\<close>

theorem Init_Advance_empty:
  assumes "GetTable ctx (table_oid s) = Some t"
    and "(\<exists>cols. t = storage_table cols []) \<or>
         beginAt t (start_block_idx s) = endAt t (end_block_idx s)"
  shows "\<exists>s' ctx'. Init V ctx s = Inr (True, s', ctx') \<and> Advance s' = Inr (False, s')"
  using assms
  by (auto simp: Init_def Advance_def Let_def storage_table_def slots_before_def split: prod.splits)

theorem Init_Advance_empty_witness:
  "GetTable empty_ctx (table_oid (TableVectorIterator4 9 [1] 1 :: (nat, nat) TableVectorIterator))
     = Some (storage_table [1] []) \<and>
   (\<exists>s' ctx'. Init 2 empty_ctx (TableVectorIterator4 9 [1] 1) = Inr (True, s', ctx') \<and>
      Advance s' = Inr (False, s'))"
proof -
  have g: "GetTable empty_ctx (table_oid (TableVectorIterator4 9 [1] 1 :: (nat, nat) TableVectorIterator))
             = Some (storage_table [1] [])"
    by (simp add: empty_ctx_def TableVectorIterator4_def TableVectorIterator6_def)
  have e: "(\<exists>cols. storage_table [1] [] = (storage_table cols [] :: (nat, nat) SqlTable)) \<or>
           beginAt (storage_table [1] [] :: (nat, nat) SqlTable)
               (start_block_idx (TableVectorIterator4 9 [1] 1 :: (nat, nat) TableVectorIterator)) =
           endAt (storage_table [1] [])
               (end_block_idx (TableVectorIterator4 9 [1] 1 :: (nat, nat) TableVectorIterator))"
    by blast
  show ?thesis
    using g Init_Advance_empty [OF g e, of 2] by simp
qed

text \<open>
  C8. When the column request of the iterator is empty and its table resolves,
  \<^verbatim>\<open>Init()\<close> sets the column set to what \<^verbatim>\<open>GetAllColOid\<close> of the table gives, in
  that order, and lays the buffer out for these columns. The column set it resolves to
  is empty exactly when the table itself has no column.
\<close>

theorem Init_empty_request:
  assumes "col_oids s = []" and "GetTable ctx (table_oid s) = Some t"
  shows "\<exists>s' ctx'. Init V ctx s = Inr (True, s', ctx') \<and> col_oids s' = GetAllColOid t \<and>
           (\<exists>buf. projected_columns s' =
              Some (Initialize (InitializerForProjectedColumns t (GetAllColOid t) V) buf)) \<and>
           (col_oids s' = [] \<longleftrightarrow> GetAllColOid t = [])"
  using assms by (auto simp: Init_def Let_def split: prod.splits)

theorem Init_empty_request_witness:
  "col_oids (TableVectorIterator6 7 [] 0 0 2 :: (nat, nat) TableVectorIterator) = [] \<and>
   GetTable demo_ctx (table_oid (TableVectorIterator6 7 [] 0 0 2 :: (nat, nat) TableVectorIterator))
     = Some demo_table \<and> GetAllColOid demo_table \<noteq> [] \<and>
   (\<exists>s' ctx'. Init 2 demo_ctx (TableVectorIterator6 7 [] 0 0 2) = Inr (True, s', ctx') \<and>
      col_oids s' = [1, 2])"
proof -
  have c: "col_oids (TableVectorIterator6 7 [] 0 0 2 :: (nat, nat) TableVectorIterator) = []"
    by (simp add: TableVectorIterator6_def)
  have g: "GetTable demo_ctx (table_oid (TableVectorIterator6 7 [] 0 0 2 :: (nat, nat) TableVectorIterator))
             = Some demo_table"
    by (simp add: demo_ctx_def TableVectorIterator6_def)
  have a: "GetAllColOid demo_table = [1, 2]"
    by (simp add: demo_table_def storage_table_def)
  show ?thesis
    using c g a Init_empty_request [OF c g, of 2] by auto
qed

text \<open>
  On a table whose column set is empty, an iterator with an empty column request comes
  out of \<^verbatim>\<open>Init()\<close> with an empty column set and a buffer laid out for no column: the
  assertion that there is at least one column is commented out in the source.
\<close>

theorem empty_projection_counterexample:
  "col_oids (TableVectorIterator6 5 [] 0 0 1 :: (nat, nat) TableVectorIterator) = [] \<and>
   Init 2 nocol_ctx (TableVectorIterator6 5 [] 0 0 1) =
     Inr (True, nocol_iterator, nocol_ctx\<lparr>GetMemoryPool := [Allocated 0 0]\<rparr>) \<and>
   col_oids nocol_iterator = []"
  by (simp add: Init_def nocol_ctx_def nocol_iterator_def TableVectorIterator6_def
      storage_table_def slots_before_def AllocateAligned_def Let_def)

text \<open>
  C10. Whenever \<^verbatim>\<open>Init()\<close> returns, it returns true; it fails only by the assertion
  that the table exists, which fires exactly when the table does not resolve. A task
  therefore never ends on the early return that follows a false \<^verbatim>\<open>Init()\<close>.
\<close>

theorem Init_returns_true:
  "(\<forall>ok s' ctx'. Init V ctx s = Inr (ok, s', ctx') \<longrightarrow> ok) \<and>
   (\<forall>e. Init V ctx s = Inl e \<longrightarrow> e = TableMustExist \<and> GetTable ctx (table_oid s) = None) \<and>
   (\<forall>tsc' ctx'. ScanTask_call V task w r st \<noteq> Inr (InitFailed, tsc', ctx'))"
  by (auto simp: Init_def ScanTask_call_def Let_def split: option.splits prod.splits sum.splits)

theorem Init_returns_true_witness:
  "\<exists>s' ctx'. Init 2 demo_ctx (TableVectorIterator4 7 [1] 1) = Inr (True, s', ctx')"
proof -
  obtain ok s' ctx' where r: "Init 2 demo_ctx (TableVectorIterator4 7 [1] 1) = Inr (ok, s', ctx')"
    using demo_iterator_Init by blast
  have "ok"
    using r Init_returns_true [of 2 demo_ctx "TableVectorIterator4 7 [1] 1"] by blast
  with r show ?thesis by auto
qed

text \<open>
  C4. An iterator that is destroyed without \<^verbatim>\<open>Init()\<close> having run has allocated
  nothing; its destructor all the same evaluates \<^verbatim>\<open>projected_columns_->Size()\<close> on the
  null pointer for a call of \<^verbatim>\<open>Deallocate\<close>.
\<close>

theorem destroy_without_Init:
  "destroy ctx (TableVectorIterator6 oid cols num_oids start_idx end_idx) = Inl NullDereference"
  by (simp add: destroy_def TableVectorIterator6_def)

text \<open>With exactly one \<^verbatim>\<open>Init()\<close> the pool sees one allocation and one release of it.\<close>

lemma Init_destroy_matched:
  assumes "Init V ctx s = Inr (ok, s', ctx')" and "GetMemoryPool ctx = []"
  shows "\<exists>ctx'' p sz. destroy ctx' s' = Inr ctx'' \<and>
           allocations (GetMemoryPool ctx'') = [(p, sz)] \<and>
           deallocations (GetMemoryPool ctx'') = [(Some p, Size (the (projected_columns s')))]"
  using assms
  by (auto simp: Init_def destroy_def Let_def AllocateAligned_def Deallocate_def allocations_def
        deallocations_def split: option.splits prod.splits)

section \<open>Properties of the parallel scan\<close>

text \<open>
  C5. When the catalog does not resolve the table identifier, \<^verbatim>\<open>ParallelScan\<close> returns
  false; no task has run, and the thread states and the execution context are as before.
\<close>

theorem ParallelScan_unresolved:
  "GetTable exec_ctx oid = None \<Longrightarrow>
   ParallelScan V sched oid qstate thread_states scan_fn exec_ctx =
     Inr (False, [], thread_states, exec_ctx)"
  by (simp add: ParallelScan_def)

theorem ParallelScan_unresolved_witness:
  "GetTable demo_ctx 8 = None \<and>
   ParallelScan 2 always_split 8 () test_thread_states test_scanner demo_ctx =
     Inr (False, [], test_thread_states, demo_ctx)"
proof -
  have g: "GetTable demo_ctx 8 = None"
    by (simp add: demo_ctx_def)
  show ?thesis
    using g ParallelScan_unresolved [OF g] by simp
qed

lemma narrow_widen:
  "unat (ucast (ucast (oid :: 32 word) :: 16 word) :: 32 word) = unat oid mod 2 ^ 16"
  by (simp add: unsigned_ucast_eq take_bit_eq_mod unat_mod_distrib)

subsection \<open>The partition of the block range\<close>

lemma do_split_fst:
  "my_begin (fst (do_split r)) = my_begin r"
  "my_end (fst (do_split r)) = my_begin r + (my_end r - my_begin r) div 2"
  "my_grainsize (fst (do_split r)) = my_grainsize r"
  by (simp_all add: do_split_def Let_def)

lemma do_split_snd:
  "my_begin (snd (do_split r)) = my_begin r + (my_end r - my_begin r) div 2"
  "my_end (snd (do_split r)) = my_end r"
  "my_grainsize (snd (do_split r)) = my_grainsize r"
  by (simp_all add: do_split_def Let_def)

lemma split_ranges_bounds:
  "my_begin r \<le> my_end r \<Longrightarrow> x \<in> set (split_ranges sched r) \<Longrightarrow>
   my_begin r \<le> my_begin x \<and> my_begin x \<le> my_end x \<and> my_end x \<le> my_end r \<and>
   my_grainsize x = my_grainsize r"
proof (induction sched r arbitrary: x rule: split_ranges.induct)
  case (1 sched r)
  show ?case
  proof (cases "0 < my_grainsize r \<and> is_divisible r \<and> splits sched r")
    case True
    then have s: "split_ranges sched r =
        split_ranges sched (fst (do_split r)) @ split_ranges sched (snd (do_split r))"
      by (subst split_ranges.simps) simp
    from "1.prems"(2) s consider
      (l) "x \<in> set (split_ranges sched (fst (do_split r)))" |
      (h) "x \<in> set (split_ranges sched (snd (do_split r)))"
      by auto
    then show ?thesis
    proof cases
      case l
      have "my_begin (fst (do_split r)) \<le> my_end (fst (do_split r))"
        by (simp add: do_split_fst)
      from "1.IH"(1) [OF True this l] "1.prems"(1) show ?thesis
        by (simp add: do_split_fst) linarith
    next
      case h
      have "my_begin (snd (do_split r)) \<le> my_end (snd (do_split r))"
        using "1.prems"(1) by (simp add: do_split_snd)
      from "1.IH"(2) [OF True this h] "1.prems"(1) show ?thesis
        by (simp add: do_split_snd)
    qed
  next
    case False
    then have "split_ranges sched r = [r]"
      by (subst split_ranges.simps) auto
    with "1.prems" show ?thesis by simp
  qed
qed


lemma split_ranges_unfold:
  "0 < my_grainsize r \<and> is_divisible r \<and> splits sched r \<Longrightarrow>
   split_ranges sched r = split_ranges sched (fst (do_split r)) @ split_ranges sched (snd (do_split r))"
  by (subst split_ranges.simps) simp

lemma split_ranges_leaf:
  "\<not> (0 < my_grainsize r \<and> is_divisible r \<and> splits sched r) \<Longrightarrow> split_ranges sched r = [r]"
  by (subst split_ranges.simps) auto

lemma middle_bounds:
  "my_begin r \<le> my_end r \<Longrightarrow>
   my_begin r \<le> my_begin r + (my_end r - my_begin r) div 2 \<and>
   my_begin r + (my_end r - my_begin r) div 2 \<le> my_end r"
  by linarith

lemma split_ranges_union:
  "my_begin r \<le> my_end r \<Longrightarrow>
   (\<Union>x\<in>set (split_ranges sched r). {my_begin x..<my_end x}) = {my_begin r..<my_end r}"
proof (induction sched r rule: split_ranges.induct)
  case (1 sched r)
  show ?case
  proof (cases "0 < my_grainsize r \<and> is_divisible r \<and> splits sched r")
    case True
    let ?m = "my_begin r + (my_end r - my_begin r) div 2"
    have m: "my_begin r \<le> ?m" "?m \<le> my_end r"
      using middle_bounds [OF "1.prems"] by simp_all
    have l: "(\<Union>x\<in>set (split_ranges sched (fst (do_split r))). {my_begin x..<my_end x}) = {my_begin r..<?m}"
      using "1.IH"(1) [OF True] m by (simp add: do_split_fst)
    have h: "(\<Union>x\<in>set (split_ranges sched (snd (do_split r))). {my_begin x..<my_end x}) = {?m..<my_end r}"
      using "1.IH"(2) [OF True] m by (simp add: do_split_snd)
    have "{my_begin r..<?m} \<union> {?m..<my_end r} = {my_begin r..<my_end r}"
      using m by (rule ivl_disj_un_two)
    then show ?thesis
      by (simp add: split_ranges_unfold [OF True] l h)
  next
    case False
    then show ?thesis by (simp add: split_ranges_leaf)
  qed
qed

lemma split_ranges_ordered:
  "my_begin r \<le> my_end r \<Longrightarrow>
   sorted_wrt (\<lambda>x y. my_end x \<le> my_begin y) (split_ranges sched r)"
proof (induction sched r rule: split_ranges.induct)
  case (1 sched r)
  show ?case
  proof (cases "0 < my_grainsize r \<and> is_divisible r \<and> splits sched r")
    case True
    let ?m = "my_begin r + (my_end r - my_begin r) div 2"
    have m: "my_begin r \<le> ?m" "?m \<le> my_end r"
      using middle_bounds [OF "1.prems"] by simp_all
    have bl: "my_begin (fst (do_split r)) \<le> my_end (fst (do_split r))"
      using m by (simp add: do_split_fst)
    have bh: "my_begin (snd (do_split r)) \<le> my_end (snd (do_split r))"
      using m by (simp add: do_split_snd)
    have cross: "my_end x \<le> my_begin y"
      if "x \<in> set (split_ranges sched (fst (do_split r)))"
        and "y \<in> set (split_ranges sched (snd (do_split r)))" for x y
    proof -
      have "my_end x \<le> ?m"
        using split_ranges_bounds [OF bl that(1)] by (simp add: do_split_fst)
      moreover have "?m \<le> my_begin y"
        using split_ranges_bounds [OF bh that(2)] by (simp add: do_split_snd)
      ultimately show ?thesis by linarith
    qed
    show ?thesis
      using "1.IH"(1) [OF True bl] "1.IH"(2) [OF True bh] cross
      by (simp add: split_ranges_unfold [OF True] sorted_wrt_append)
  next
    case False
    then show ?thesis by (simp add: split_ranges_leaf)
  qed
qed

lemma split_ranges_grain:
  "split_ranges sched r = [r] \<or>
   (\<forall>x\<in>set (split_ranges sched r). my_grainsize r \<le> 2 * range_size x)"
proof (induction sched r rule: split_ranges.induct)
  case (1 sched r)
  show ?case
  proof (cases "0 < my_grainsize r \<and> is_divisible r \<and> splits sched r")
    case True
    let ?l = "fst (do_split r)" and ?h = "snd (do_split r)"
    have big: "my_grainsize r < my_end r - my_begin r"
      using True by (simp add: is_divisible_def range_size_def)
    have sl: "my_grainsize r \<le> 2 * range_size ?l"
      using big by (simp add: range_size_def do_split_fst)
    have sh: "my_grainsize r \<le> 2 * range_size ?h"
      using big by (simp add: range_size_def do_split_snd)
    have l: "\<forall>x\<in>set (split_ranges sched ?l). my_grainsize r \<le> 2 * range_size x"
      using "1.IH"(1) [OF True] sl by (auto simp: do_split_fst)
    have h: "\<forall>x\<in>set (split_ranges sched ?h). my_grainsize r \<le> 2 * range_size x"
      using "1.IH"(2) [OF True] sh by (auto simp: do_split_snd)
    show ?thesis
      using l h by (auto simp: split_ranges_unfold [OF True])
  next
    case False
    then show ?thesis by (simp add: split_ranges_leaf)
  qed
qed

lemma split_ranges_nonempty:
  "my_begin r < my_end r \<Longrightarrow> \<forall>x\<in>set (split_ranges sched r). my_begin x < my_end x"
proof (induction sched r rule: split_ranges.induct)
  case (1 sched r)
  show ?case
  proof (cases "0 < my_grainsize r \<and> is_divisible r \<and> splits sched r")
    case True
    have big: "1 < my_end r - my_begin r"
      using True by (simp add: is_divisible_def range_size_def)
    have bl: "my_begin (fst (do_split r)) < my_end (fst (do_split r))"
      using big by (simp add: do_split_fst) 
    have bh: "my_begin (snd (do_split r)) < my_end (snd (do_split r))"
      using big by (simp add: do_split_snd)
    show ?thesis
      using "1.IH"(1) [OF True bl] "1.IH"(2) [OF True bh]
      by (auto simp: split_ranges_unfold [OF True])
  next
    case False
    then show ?thesis using "1.prems" by (simp add: split_ranges_leaf)
  qed
qed

text \<open>
  C3. For every block count \<open>B\<close>, every positive grain size \<open>g\<close> and every schedule,
  the ranges \<^verbatim>\<open>parallel_for\<close> runs the body on are in ascending order, pairwise
  disjoint and none of them empty, and their union is exactly \<open>[0, B)\<close>. Either the
  range was not split at all, or every range has at least \<open>g / 2\<close> blocks: a divisible
  range, of more than \<open>g\<close> blocks, is cut in halves.
\<close>

theorem parallel_for_ranges_partition:
  assumes "0 < g"
  shows "(\<Union>r\<in>set (parallel_for_ranges sched \<lparr>my_begin = 0, my_end = B, my_grainsize = g\<rparr>). block_set r) = {0..<B} \<and>
         sorted_wrt (\<lambda>x y. my_end x \<le> my_begin y) (parallel_for_ranges sched \<lparr>my_begin = 0, my_end = B, my_grainsize = g\<rparr>) \<and>
         sorted_wrt (\<lambda>x y. block_set x \<inter> block_set y = {}) (parallel_for_ranges sched \<lparr>my_begin = 0, my_end = B, my_grainsize = g\<rparr>) \<and>
         (\<forall>r\<in>set (parallel_for_ranges sched \<lparr>my_begin = 0, my_end = B, my_grainsize = g\<rparr>). block_set r \<noteq> {}) \<and>
         (length (parallel_for_ranges sched \<lparr>my_begin = 0, my_end = B, my_grainsize = g\<rparr>) \<le> 1 \<or>
          (\<forall>r\<in>set (parallel_for_ranges sched \<lparr>my_begin = 0, my_end = B, my_grainsize = g\<rparr>). g \<le> 2 * range_size r))"
proof -
  let ?r = "\<lparr>my_begin = 0, my_end = B, my_grainsize = g\<rparr>"
  let ?rs = "parallel_for_ranges sched ?r"
  have le: "my_begin ?r \<le> my_end ?r" by simp
  have ord: "sorted_wrt (\<lambda>x y. my_end x \<le> my_begin y) ?rs"
    using split_ranges_ordered [OF le, of sched] by (simp add: parallel_for_ranges_def)
  have disj: "sorted_wrt (\<lambda>x y. block_set x \<inter> block_set y = {}) ?rs"
    by (rule sorted_wrt_mono_rel [OF _ ord]) (auto simp: block_set_def)
  have un: "(\<Union>r\<in>set ?rs. block_set r) = {0..<B}"
    using split_ranges_union [OF le, of sched]
    by (auto simp: parallel_for_ranges_def range_empty_def block_set_def)
  have ne: "\<forall>r\<in>set ?rs. block_set r \<noteq> {}"
    using split_ranges_nonempty [of ?r sched]
    by (auto simp: parallel_for_ranges_def range_empty_def block_set_def)
  have gr: "length ?rs \<le> 1 \<or> (\<forall>r\<in>set ?rs. g \<le> 2 * range_size r)"
    using split_ranges_grain [of sched ?r]
    by (auto simp: parallel_for_ranges_def)
  from un ord disj ne gr show ?thesis by blast
qed

theorem parallel_for_ranges_partition_witness:
  "(0::nat) < 3 \<and>
   (\<Union>r\<in>set (parallel_for_ranges always_split \<lparr>my_begin = 0, my_end = 10, my_grainsize = 3\<rparr>).
      block_set r) = {0..<10}"
  using parallel_for_ranges_partition [of 3 always_split 10] by simp

text \<open>
  With four blocks and the grain size 3 the range is divisible and is cut into \<open>[0, 2)\<close>
  and \<open>[2, 4)\<close>: the first range, which is not the last, has fewer than 3 blocks.
\<close>

theorem grain_size_counterexample:
  "parallel_for_ranges always_split \<lparr>my_begin = 0, my_end = 4, my_grainsize = 3\<rparr> =
     [\<lparr>my_begin = 0, my_end = 2, my_grainsize = 3\<rparr>, \<lparr>my_begin = 2, my_end = 4, my_grainsize = 3\<rparr>] \<and>
   range_size \<lparr>my_begin = 0, my_end = 2, my_grainsize = 3\<rparr> < 3"
  by (simp add: parallel_for_ranges_def range_empty_def split_ranges.simps is_divisible_def
      range_size_def do_split_def always_split_def)

subsection \<open>Table identifiers beyond 16 bits\<close>

lemma trunc_word: "(ucast (ucast (oid :: 32 word) :: 16 word) :: 32 word) = of_nat (unat oid mod 2 ^ 16)"
proof -
  have "(ucast (ucast oid :: 16 word) :: 32 word) = of_nat (unat (ucast (ucast oid :: 16 word) :: 32 word))"
    by simp
  then show ?thesis by (simp only: narrow_widen)
qed

lemma trunc_differs: "2 ^ 16 \<le> unat (oid :: 32 word) \<Longrightarrow> (of_nat (unat oid mod 2 ^ 16) :: 32 word) \<noteq> oid"
proof
  assume big: "2 ^ 16 \<le> unat oid" and eq: "(of_nat (unat oid mod 2 ^ 16) :: 32 word) = oid"
  have "unat (of_nat (unat oid mod 2 ^ 16) :: 32 word) = unat oid mod 2 ^ 16"
    using narrow_widen [of oid] by (simp add: trunc_word)
  then have "unat oid = unat oid mod 2 ^ 16" using eq by simp
  moreover have "unat oid mod 2 ^ 16 < (2 ^ 16 :: nat)" by simp
  ultimately show False using big by linarith
qed

lemma split_ranges_not_Nil: "split_ranges sched r \<noteq> []"
proof (induction sched r rule: split_ranges.induct)
  case (1 sched r)
  show ?case
  proof (cases "0 < my_grainsize r \<and> is_divisible r \<and> splits sched r")
    case True
    then show ?thesis using "1.IH"(1) [OF True] by (simp add: split_ranges_unfold)
  next
    case False
    then show ?thesis by (simp add: split_ranges_leaf)
  qed
qed

lemma task_iterator_truncated:
  "task_iterator (ScanTask_ctor (ucast (oid :: 32 word)) qstate scan_fn) r =
     TableVectorIterator6 (of_nat (unat oid mod 2 ^ 16)) [] 0 (of_nat (my_begin r)) (of_nat (my_end r))"
  by (simp add: task_iterator_def ScanTask_ctor_def trunc_word)

lemma Init_always_true: "Init V ctx s = Inr (ok, s', ctx') \<Longrightarrow> ok"
  by (auto simp: Init_def Let_def split: option.splits prod.splits)

text \<open>
  C9. \<^verbatim>\<open>ParallelScan\<close>, once it has resolved its 32-bit table identifier, runs
  \<^verbatim>\<open>parallel_for\<close> with a \<^verbatim>\<open>ScanTask\<close> built from that identifier, narrowed to the
  16 bits of the constructor's parameter. Every call of the task, on whatever range,
  worker and state, runs \<^verbatim>\<open>Init()\<close> on an iterator built with the identifier modulo
  \<open>2 ^ 16\<close> and hands the scan function the iterator that comes out of it, which
  carries that identifier and the table the catalog has for it. So, when the table the
  orchestrator resolved has a block and the catalog has no table for the identifier
  modulo \<open>2 ^ 16\<close>, the call stops on the assertion of \<^verbatim>\<open>Init()\<close>. The identifier
  modulo \<open>2 ^ 16\<close> differs from the identifier the orchestrator resolved as soon as
  that one is \<open>2 ^ 16\<close> or more.
\<close>

theorem ParallelScan_truncates_table_id:
  assumes "GetTable ctx oid = Some tbl"
  shows "ParallelScan V sched oid qstate tsc scan_fn ctx =
           (case parallel_for V sched
                   \<lparr>my_begin = 0, my_end = unat (GetBlockListSize tbl), my_grainsize = 3\<rparr>
                   (ScanTask_ctor (ucast oid) qstate scan_fn) (tsc, ctx) of
              Inl e \<Rightarrow> Inl e
            | Inr (tasks, tsc', ctx') \<Rightarrow> Inr (True, tasks, tsc', ctx')) \<and>
         (\<forall>w r tsc1 ctx1.
            ScanTask_call V (ScanTask_ctor (ucast oid) qstate scan_fn) w r (tsc1, ctx1) =
              (case Init V ctx1 (TableVectorIterator6 (of_nat (unat oid mod 2 ^ 16)) [] 0
                                   (of_nat (my_begin r)) (of_nat (my_end r))) of
                 Inl e \<Rightarrow> Inl e
               | Inr (ok, it1, ctx2) \<Rightarrow>
                   (case scan_fn qstate (AccessThreadStateOfCurrentThread tsc1 w) it1 of
                      None \<Rightarrow> Inl ScanFnNoReturn
                    | Some (Inl e) \<Rightarrow> Inl e
                    | Some (Inr (thread_state, it2)) \<Rightarrow>
                        (case destroy ctx2 it2 of
                           Inl e \<Rightarrow> Inl e
                         | Inr ctx3 \<Rightarrow> Inr (Scanned, store_thread_state tsc1 w thread_state, ctx3))))) \<and>
         (\<forall>r ctx1 ok it1 ctx2.
            Init V ctx1 (TableVectorIterator6 (of_nat (unat oid mod 2 ^ 16)) [] 0
                           (of_nat (my_begin r)) (of_nat (my_end r))) = Inr (ok, it1, ctx2) \<longrightarrow>
            table_oid it1 = of_nat (unat oid mod 2 ^ 16) \<and>
            table it1 = GetTable ctx1 (of_nat (unat oid mod 2 ^ 16))) \<and>
         (GetBlockListSize tbl \<noteq> 0 \<and> GetTable ctx (of_nat (unat oid mod 2 ^ 16)) = None \<longrightarrow>
            ParallelScan V sched oid qstate tsc scan_fn ctx = Inl TableMustExist) \<and>
         (2 ^ 16 \<le> unat oid \<longrightarrow> (of_nat (unat oid mod 2 ^ 16) :: 32 word) \<noteq> oid)"
proof -
  let ?task = "ScanTask_ctor (ucast oid) qstate scan_fn"
  let ?id = "of_nat (unat oid mod 2 ^ 16) :: 32 word"
  let ?range = "\<lparr>my_begin = 0, my_end = unat (GetBlockListSize tbl), my_grainsize = 3\<rparr>"
  have entry: "ParallelScan V sched oid qstate tsc scan_fn ctx =
           (case parallel_for V sched ?range ?task (tsc, ctx) of
              Inl e \<Rightarrow> Inl e
            | Inr (tasks, tsc', ctx') \<Rightarrow> Inr (True, tasks, tsc', ctx'))"
    using assms by (simp add: ParallelScan_def Let_def)
  have call: "ScanTask_call V ?task w r (tsc1, ctx1) =
              (case Init V ctx1 (TableVectorIterator6 ?id [] 0 (of_nat (my_begin r)) (of_nat (my_end r))) of
                 Inl e \<Rightarrow> Inl e
               | Inr (ok, it1, ctx2) \<Rightarrow>
                   (case scan_fn qstate (AccessThreadStateOfCurrentThread tsc1 w) it1 of
                      None \<Rightarrow> Inl ScanFnNoReturn
                    | Some (Inl e) \<Rightarrow> Inl e
                    | Some (Inr (thread_state, it2)) \<Rightarrow>
                        (case destroy ctx2 it2 of
                           Inl e \<Rightarrow> Inl e
                         | Inr ctx3 \<Rightarrow> Inr (Scanned, store_thread_state tsc1 w thread_state, ctx3))))"
    for w r tsc1 ctx1
  proof (cases "Init V ctx1 (TableVectorIterator6 ?id [] 0 (of_nat (my_begin r)) (of_nat (my_end r)))")
    case (Inl e)
    then show ?thesis
      by (simp add: ScanTask_call_def task_iterator_truncated)
  next
    case (Inr res)
    obtain ok it1 ctx2 where res: "res = (ok, it1, ctx2)" by (cases res) auto
    have "ok" using Inr res Init_always_true by blast
    moreover have "scanner ?task = scan_fn" and "query_state ?task = qstate"
      by (simp_all add: ScanTask_ctor_def)
    ultimately show ?thesis
      using Inr res
      by (simp add: ScanTask_call_def task_iterator_truncated)
  qed
  have seen: "table_oid it1 = ?id \<and> table it1 = GetTable ctx1 ?id"
    if "Init V ctx1 (TableVectorIterator6 ?id [] 0 (of_nat (my_begin r)) (of_nat (my_end r))) = Inr (ok, it1, ctx2)"
    for r ctx1 ok it1 ctx2
    using that
    by (auto simp: Init_def Let_def TableVectorIterator6_def split: option.splits prod.splits)
  have abort: "ParallelScan V sched oid qstate tsc scan_fn ctx = Inl TableMustExist"
    if nz: "GetBlockListSize tbl \<noteq> 0" and none: "GetTable ctx ?id = None"
  proof -
    have "unat (GetBlockListSize tbl) \<noteq> 0"
      using nz by (simp add: unat_eq_0)
    then have ne: "\<not> range_empty ?range"
      by (simp add: range_empty_def)
    obtain r rs where rs: "parallel_for_ranges sched ?range = r # rs"
      using ne split_ranges_not_Nil [of sched ?range]
      by (cases "split_ranges sched ?range") (auto simp: parallel_for_ranges_def)
    have "Init V ctx (TableVectorIterator6 ?id [] 0 (of_nat (my_begin r)) (of_nat (my_end r))) = Inl TableMustExist"
      using none by (simp add: Init_def TableVectorIterator6_def)
    then have "ScanTask_call V ?task (worker sched r) r (tsc, ctx) = Inl TableMustExist"
      by (simp add: call)
    then show ?thesis
      by (simp add: entry parallel_for_def rs)
  qed
  from entry call seen abort trunc_differs [of oid] show ?thesis
    by blast
qed

theorem ParallelScan_truncates_table_id_witness:
  "GetTable wide_ctx 65543 = Some demo_table \<and>
   GetBlockListSize demo_table \<noteq> 0 \<and>
   GetTable wide_ctx (of_nat (unat (65543 :: 32 word) mod 2 ^ 16)) = None \<and>
   (2 :: nat) ^ 16 \<le> unat (65543 :: 32 word) \<and>
   ParallelScan 4 always_split 65543 () test_thread_states test_scanner wide_ctx = Inl TableMustExist \<and>
   (of_nat (unat (65543 :: 32 word) mod 2 ^ 16) :: 32 word) \<noteq> 65543"
proof -
  have g: "GetTable wide_ctx 65543 = Some demo_table"
    by (simp add: wide_ctx_def)
  note t = ParallelScan_truncates_table_id [OF g, of 4 always_split "()" test_thread_states test_scanner]
  have nz: "GetBlockListSize demo_table \<noteq> 0"
    by (simp add: demo_table_def storage_table_def)
  have none: "GetTable wide_ctx (of_nat (unat (65543 :: 32 word) mod 2 ^ 16)) = None"
    by (simp add: wide_ctx_def)
  have big: "(2 :: nat) ^ 16 \<le> unat (65543 :: 32 word)"
    by simp
  have stop: "ParallelScan 4 always_split 65543 () test_thread_states test_scanner wide_ctx = Inl TableMustExist"
    using t nz none by blast
  have ne: "(of_nat (unat (65543 :: 32 word) mod 2 ^ 16) :: 32 word) \<noteq> 65543"
    using t big by blast
  from g nz none big stop ne show ?thesis by blast
qed

lemmas eval_defs = ParallelScan_def parallel_for_def parallel_for_ranges_def range_empty_def
  is_divisible_def range_size_def do_split_def split_ranges.simps ScanTask_ctor_def ScanTask_call_def
  task_iterator_def TableVectorIterator6_def TableVectorIterator4_def Init_def Advance_def
  destroy_def AllocateAligned_def Deallocate_def AccessThreadStateOfCurrentThread_def
  store_thread_state_def SetProjectedColumn_def HasNext_def pci_Advance_def count_rows.simps
  storage_table_def slots_before_def test_scanner_def scan_loop.simps test_thread_states_def
  ForEach_def demo_table_def always_split_def unat_max32 Let_def

text \<open>
  C6. The catalog resolves the identifier 65543 to a table of five blocks and holds no
  table 7. \<^verbatim>\<open>ParallelScan\<close> resolves the table, and its first task looks up the
  identifier 7, which fails the assertion of \<^verbatim>\<open>Init()\<close>: the call does not return.
\<close>

theorem ParallelScan_wide_id_aborts:
  "GetTable wide_ctx 65543 = Some demo_table \<and>
   ParallelScan 2 always_split 65543 () test_thread_states test_scanner wide_ctx = Inl TableMustExist"
  by (simp add: eval_defs wide_ctx_def)

text \<open>
  C2. The catalog resolves the identifier 65543 to a table of eight rows and the
  identifier 7 to a table without rows. The sequential scan of table 65543 counts eight
  rows; the counters of the parallel scan of table 65543 add up to 0, its tasks having
  scanned table 7.
\<close>

theorem parallel_count_wide_id:
  "num_tuples 2 65543 [1] wide_ctx2 = Inr 8 \<and>
   aggregate_tuple_count 2 always_split 65543 wide_ctx2 = Inr 0"
  by (simp add: num_tuples_def aggregate_tuple_count_def eval_defs wide_ctx2_def)

text \<open>On a table whose identifier fits 16 bits both scans count the eight rows.\<close>

lemma parallel_count_demo:
  "num_tuples 2 7 [1] demo_ctx = Inr 8 \<and> aggregate_tuple_count 2 always_split 7 demo_ctx = Inr 8"
  by (simp add: num_tuples_def aggregate_tuple_count_def eval_defs demo_ctx_def)

subsection \<open>The two scans of a storage table whose identifier fits 16 bits\<close>

text \<open>
  On a storage table whose identifier is below \<open>2 ^ 16\<close> the parallel scan and the
  sequential scan both terminate and count every row of the table, whatever the schedule
  and whatever the (positive) capacity of the buffer.
\<close>

lemma count_rows_counter:
  "projected_column p = Some pc \<Longrightarrow>
   snd (count_rows p counter) = counter\<lparr>c := c counter + of_nat (length (Rows pc) - curr_idx p)\<rparr>"
proof (induction p counter rule: count_rows.induct)
  case (1 p counter)
  show ?case
  proof (cases "HasNext p")
    case True
    then have lt: "curr_idx p < length (Rows pc)"
      using "1.prems" by (simp add: HasNext_def)
    have pc': "projected_column (pci_Advance p) = Some pc"
      using "1.prems" by (simp add: pci_Advance_def)
    have n: "length (Rows pc) - curr_idx p = Suc (length (Rows pc) - curr_idx (pci_Advance p))"
      using lt by (simp add: pci_Advance_def)
    have "snd (count_rows p counter) = snd (count_rows (pci_Advance p) (counter\<lparr>c := c counter + 1\<rparr>))"
      using True by (subst count_rows.simps) simp
    also have "\<dots> = counter\<lparr>c := c counter + of_nat (length (Rows pc) - curr_idx p)\<rparr>"
      using "1.IH" [OF True pc'] by (simp add: n add.assoc)
    finally show ?thesis .
  next
    case False
    then have "length (Rows pc) - curr_idx p = 0"
      using "1.prems" by (simp add: HasNext_def)
    moreover have "snd (count_rows p counter) = counter"
      using False by (subst count_rows.simps) simp
    ultimately show ?thesis by simp
  qed
qed

lemma scan_loop_counts:
  assumes "scanning blocks V i e s" "i \<le> e" "e \<le> length (concat blocks)" "0 < V"
  shows "\<exists>s'. scan_loop counter s = Some (Inr (counter\<lparr>c := c counter + of_nat (e - i)\<rparr>, s')) \<and>
           projected_columns s' \<noteq> None"
  using assms
proof (induction "e - i" arbitrary: i s counter rule: less_induct)
  case less
  from less.prems(1) obtain cols pc where
    st: "initialized s" "table s = Some (storage_table cols blocks)" "iter s = Some i"
        "iter_end s = Some e" "projected_columns s = Some pc" "MaxTuples pc = V"
    by (auto simp: scanning_def)
  show ?case
  proof (cases "i = e")
    case True
    have "Advance s = Inr (False, s)"
      using st True by (simp add: Advance_def)
    then have "scan_loop counter s = Some (Inr (counter, s))"
      by (subst scan_loop.simps) simp
    then show ?thesis using True st by simp
  next
    case False
    define n where "n = min V (e - i)"
    have n: "0 < n" "i + n \<le> e"
      using False less.prems(2,4) by (auto simp: n_def)
    define pc' where "pc' = pc\<lparr>Rows := take n (drop i (concat blocks))\<rparr>"
    define s1 where "s1 = s\<lparr>iter := Some (i + n), projected_columns := Some pc',
                            pci := SetProjectedColumn (pci s) pc'\<rparr>"
    have len: "length (Rows pc') = n"
      using n less.prems(3) by (simp add: pc'_def)
    have adv: "Advance s = Inr (True, s1)"
      using st False
      by (simp add: Advance_def storage_table_def Let_def s1_def pc'_def n_def)
    define p where "p = fst (count_rows (pci s1) counter)"
    define counter1 where "counter1 = snd (count_rows (pci s1) counter)"
    have c1: "counter1 = counter\<lparr>c := c counter + of_nat n\<rparr>"
      unfolding counter1_def
      using count_rows_counter [of "pci s1" pc' counter] len
      by (simp add: s1_def SetProjectedColumn_def)
    have step: "scan_loop counter s = scan_loop counter1 (s1\<lparr>pci := p\<rparr>)"
      by (subst scan_loop.simps) (simp add: adv p_def counter1_def split: prod.splits)
    have sc: "scanning blocks V (i + n) e (s1\<lparr>pci := p\<rparr>)"
      using st by (auto simp: scanning_def s1_def pc'_def)
    have "e - (i + n) < e - i" using n False less.prems(2) by linarith
    from less.hyps [OF this sc n(2) less.prems(3,4), of counter1]
    obtain s' where r: "scan_loop counter1 (s1\<lparr>pci := p\<rparr>) =
        Some (Inr (counter1\<lparr>c := c counter1 + of_nat (e - (i + n))\<rparr>, s'))"
        "projected_columns s' \<noteq> None"
      by blast
    have eqn: "n + (e - (i + n)) = e - i"
      using n(2) by linarith
    have "of_nat n + (of_nat (e - (i + n)) :: 32 word) = of_nat (n + (e - (i + n)))"
      by (simp only: of_nat_add)
    then have "of_nat n + (of_nat (e - (i + n)) :: 32 word) = of_nat (e - i)"
      by (simp only: eqn)
    then have "counter1\<lparr>c := c counter1 + of_nat (e - (i + n))\<rparr> = counter\<lparr>c := c counter + of_nat (e - i)\<rparr>"
      by (simp add: c1 add.assoc)
    with r step show ?thesis by auto
  qed
qed


lemma slots_before_mono: "a \<le> b \<Longrightarrow> slots_before blocks a \<le> slots_before blocks b"
proof -
  assume "a \<le> b"
  then have "take b blocks = take a blocks @ take (b - a) (drop a blocks)"
    using take_add [of a "b - a" blocks] by simp
  then show ?thesis by (simp add: slots_before_def)
qed

lemma slots_before_le: "slots_before blocks k \<le> length (concat blocks)"
proof -
  have "concat blocks = concat (take k blocks) @ concat (drop k blocks)"
    by (metis append_take_drop_id concat_append)
  then have "length (concat blocks) = length (concat (take k blocks)) + length (concat (drop k blocks))"
    by (metis length_append)
  then show ?thesis by (simp add: slots_before_def)
qed

lemma slots_before_all: "length blocks \<le> k \<Longrightarrow> slots_before blocks k = length (concat blocks)"
  by (simp add: slots_before_def)

lemma unat_of_nat32: "n < 2 ^ 32 \<Longrightarrow> unat (of_nat n :: 32 word) = n"
  by (simp add: unat_of_nat)

lemma Init_storage:
  assumes "GetTable ctx (table_oid s) = Some (storage_table cols blocks)"
  shows "\<exists>s' ctx'. Init V ctx s = Inr (True, s', ctx') \<and>
           scanning blocks V (slots_before blocks (unat (start_block_idx s)))
             (slots_before blocks (unat (end_block_idx s))) s' \<and>
           GetTable ctx' = GetTable ctx"
  using assms
  by (auto simp: Init_def Let_def storage_table_def scanning_def AllocateAligned_def split: prod.splits)

lemma destroy_keeps_catalog:
  "projected_columns s \<noteq> None \<Longrightarrow> \<exists>ctx'. destroy ctx s = Inr ctx' \<and> GetTable ctx' = GetTable ctx"
  by (auto simp: destroy_def)

lemma ScanTask_call_storage:
  assumes tbl: "GetTable ctx (ucast (table_id task)) = Some (storage_table cols blocks)"
    and sc: "scanner task = test_scanner"
    and r: "my_begin r \<le> my_end r" "my_end r < 2 ^ 32"
    and V: "0 < V"
  shows "\<exists>ctx'. ScanTask_call V task w r (tsc, ctx) =
           Inr (Scanned,
                store_thread_state tsc w
                  ((AccessThreadStateOfCurrentThread tsc w)
                     \<lparr>c := c (AccessThreadStateOfCurrentThread tsc w) + of_nat (rows_in blocks r)\<rparr>),
                ctx') \<and>
           GetTable ctx' = GetTable ctx"
proof -
  let ?it = "task_iterator task r"
  have oid: "table_oid ?it = ucast (table_id task)"
    and sb: "unat (start_block_idx ?it) = my_begin r"
    and eb: "unat (end_block_idx ?it) = my_end r"
    using r by (simp_all add: task_iterator_def TableVectorIterator6_def unat_of_nat32)
  from Init_storage [of ctx ?it cols blocks V] tbl oid sb eb
  obtain it1 ctx1 where
    i: "Init V ctx ?it = Inr (True, it1, ctx1)"
    and s1: "scanning blocks V (slots_before blocks (my_begin r)) (slots_before blocks (my_end r)) it1"
    and g1: "GetTable ctx1 = GetTable ctx"
    by auto
  let ?ts = "AccessThreadStateOfCurrentThread tsc w"
  from scan_loop_counts [OF s1 slots_before_mono [OF r(1)] slots_before_le V, of ?ts]
  obtain it2 where
    l: "scan_loop ?ts it1 = Some (Inr (?ts\<lparr>c := c ?ts + of_nat (rows_in blocks r)\<rparr>, it2))"
    and p2: "projected_columns it2 \<noteq> None"
    by (auto simp: rows_in_def)
  from destroy_keeps_catalog [OF p2, of ctx1]
  obtain ctx2 where d: "destroy ctx1 it2 = Inr ctx2" and g2: "GetTable ctx2 = GetTable ctx1"
    by blast
  have "ScanTask_call V task w r (tsc, ctx) =
          Inr (Scanned, store_thread_state tsc w (?ts\<lparr>c := c ?ts + of_nat (rows_in blocks r)\<rparr>), ctx2)"
    by (simp add: ScanTask_call_def i sc test_scanner_def l d)
  with g1 g2 show ?thesis by simp
qed

lemma fold_counters:
  "fold (\<lambda>(w, x). (\<lambda>n. n + c x)) ps a = a + sum_list (map (\<lambda>p. c (snd p)) ps)"
  by (induction ps arbitrary: a) (auto simp: add.assoc)

lemma total_sum: "total tsc = sum_list (map (\<lambda>p. c (snd p)) (states tsc))"
  by (simp add: total_def ForEach_def fold_counters)

lemma update_slot_sum:
  "sum_list (map (\<lambda>p. c (snd p)) (update_slot w x ps)) +
     (case map_of ps w of None \<Rightarrow> 0 | Some y \<Rightarrow> c y) =
   sum_list (map (\<lambda>p. c (snd p)) ps) + c x"
  by (induction ps) (auto simp: add.assoc add.commute add.left_commute)

lemma total_store:
  assumes "c (init_state tsc) = 0"
  shows "total (store_thread_state tsc w
           ((AccessThreadStateOfCurrentThread tsc w)\<lparr>c := c (AccessThreadStateOfCurrentThread tsc w) + k\<rparr>))
         = total tsc + k"
  using assms update_slot_sum [of w "(AccessThreadStateOfCurrentThread tsc w)\<lparr>c := c (AccessThreadStateOfCurrentThread tsc w) + k\<rparr>" "states tsc"]
  by (auto simp: total_sum store_thread_state_def AccessThreadStateOfCurrentThread_def split: option.splits)


lemma run_tasks_storage:
  assumes tbl: "GetTable ctx (ucast (table_id task)) = Some (storage_table cols blocks)"
    and sc: "scanner task = test_scanner"
    and V: "0 < V"
    and rs: "\<forall>r\<in>set rs. my_begin r \<le> my_end r \<and> my_end r < 2 ^ 32"
    and z: "c (init_state tsc) = 0"
  shows "\<exists>outs tsc' ctx'. run_tasks V sched task rs (tsc, ctx) = Inr (outs, tsc', ctx') \<and>
           total tsc' = total tsc + of_nat (sum_list (map (rows_in blocks) rs)) \<and>
           map fst outs = rs \<and> (\<forall>out\<in>set outs. snd out = Scanned)"
  using tbl rs z
proof (induction rs arbitrary: tsc ctx)
  case Nil
  then show ?case by simp
next
  case (Cons r rs)
  let ?ts = "AccessThreadStateOfCurrentThread tsc (worker sched r)"
  let ?tsc1 = "store_thread_state tsc (worker sched r) (?ts\<lparr>c := c ?ts + of_nat (rows_in blocks r)\<rparr>)"
  from Cons.prems(2) have r: "my_begin r \<le> my_end r" "my_end r < 2 ^ 32"
    by simp_all
  from ScanTask_call_storage [OF Cons.prems(1) sc r V, of "worker sched r" tsc]
  obtain ctx1 where
    t: "ScanTask_call V task (worker sched r) r (tsc, ctx) = Inr (Scanned, ?tsc1, ctx1)"
    and g: "GetTable ctx1 = GetTable ctx"
    by blast
  have tbl1: "GetTable ctx1 (ucast (table_id task)) = Some (storage_table cols blocks)"
    using g Cons.prems(1) by simp
  have rs1: "\<forall>r\<in>set rs. my_begin r \<le> my_end r \<and> my_end r < 2 ^ 32"
    using Cons.prems(2) by simp
  have z1: "c (init_state ?tsc1) = 0"
    using Cons.prems(3) by (simp add: store_thread_state_def)
  from Cons.IH [OF tbl1 rs1 z1]
  obtain outs tsc' ctx' where
    rest: "run_tasks V sched task rs (?tsc1, ctx1) = Inr (outs, tsc', ctx')"
    and tot: "total tsc' = total ?tsc1 + of_nat (sum_list (map (rows_in blocks) rs))"
    and m: "map fst outs = rs" and sn: "\<forall>out\<in>set outs. snd out = Scanned"
    by blast
  have run: "run_tasks V sched task (r # rs) (tsc, ctx) = Inr ((r, Scanned) # outs, tsc', ctx')"
    by (simp add: t rest)
  have "total tsc' = total tsc + of_nat (sum_list (map (rows_in blocks) (r # rs)))"
    using tot total_store [OF Cons.prems(3), of "worker sched r" "of_nat (rows_in blocks r)"]
    by (simp add: add.assoc)
  with run m sn show ?case by simp
qed

lemma rows_in_split:
  "my_begin r \<le> my_end r \<Longrightarrow>
   sum_list (map (rows_in blocks) (split_ranges sched r)) = rows_in blocks r"
proof (induction sched r rule: split_ranges.induct)
  case (1 sched r)
  show ?case
  proof (cases "0 < my_grainsize r \<and> is_divisible r \<and> splits sched r")
    case True
    let ?m = "my_begin r + (my_end r - my_begin r) div 2"
    have m: "my_begin r \<le> ?m" "?m \<le> my_end r"
      using middle_bounds [OF "1.prems"] by simp_all
    have bl: "my_begin (fst (do_split r)) \<le> my_end (fst (do_split r))"
      using m by (simp add: do_split_fst)
    have bh: "my_begin (snd (do_split r)) \<le> my_end (snd (do_split r))"
      using m by (simp add: do_split_snd)
    have l: "sum_list (map (rows_in blocks) (split_ranges sched (fst (do_split r)))) =
               rows_in blocks (fst (do_split r))"
      using "1.IH"(1) [OF True bl] .
    have h: "sum_list (map (rows_in blocks) (split_ranges sched (snd (do_split r)))) =
               rows_in blocks (snd (do_split r))"
      using "1.IH"(2) [OF True bh] .
    have l': "rows_in blocks (fst (do_split r)) = slots_before blocks ?m - slots_before blocks (my_begin r)"
      by (simp add: rows_in_def do_split_fst)
    have h': "rows_in blocks (snd (do_split r)) = slots_before blocks (my_end r) - slots_before blocks ?m"
      by (simp add: rows_in_def do_split_snd)
    have "rows_in blocks (fst (do_split r)) + rows_in blocks (snd (do_split r)) = rows_in blocks r"
      using slots_before_mono [OF m(1), of blocks] slots_before_mono [OF m(2), of blocks]
      unfolding l' h' by (simp add: rows_in_def)
    then show ?thesis
      by (simp add: split_ranges_unfold [OF True] l h)
  next
    case False
    then show ?thesis by (simp add: split_ranges_leaf)
  qed
qed

lemma widen_narrow_small: "unat (oid :: 32 word) < 2 ^ 16 \<Longrightarrow> ucast (ucast oid :: 16 word) = oid"
  using narrow_widen [of oid] by (simp add: word_unat_eq_iff)

lemma num_tuples_storage:
  assumes tbl: "GetTable ctx oid = Some (storage_table cols blocks)"
    and V: "0 < V" and len: "length blocks < 2 ^ 32"
  shows "num_tuples V oid cs ctx = Inr (of_nat (length (concat blocks)))"
proof -
  let ?it = "TableVectorIterator4 oid cs (of_nat (length cs)) :: (nat, 'a) TableVectorIterator"
  have oid: "table_oid ?it = oid"
    and sb: "unat (start_block_idx ?it) = 0"
    and eb: "unat (end_block_idx ?it) = 4294967295"
    by (simp_all add: TableVectorIterator4_def TableVectorIterator6_def unat_max32)
  from Init_storage [of ctx ?it cols blocks V] tbl oid sb eb
  obtain it1 ctx1 where
    i: "Init V ctx ?it = Inr (True, it1, ctx1)"
    and s1: "scanning blocks V (slots_before blocks 0) (slots_before blocks 4294967295) it1"
    by auto
  have e: "slots_before blocks 4294967295 = length (concat blocks)"
    using len by (intro slots_before_all) simp
  have b: "slots_before blocks 0 = 0"
    by (simp add: slots_before_def)
  from scan_loop_counts [of blocks V 0 "length (concat blocks)" it1 "\<lparr>c = 0\<rparr>"] s1 V
  obtain it2 where "scan_loop \<lparr>c = 0\<rparr> it1 = Some (Inr (\<lparr>c = of_nat (length (concat blocks))\<rparr>, it2))"
    by (auto simp: e b)
  then show ?thesis
    by (simp add: num_tuples_def i)
qed

lemma ParallelScan_storage:
  assumes tbl: "GetTable ctx oid = Some (storage_table cols blocks)"
    and small: "unat oid < 2 ^ 16"
    and V: "0 < V" and len: "length blocks < 2 ^ 32"
  shows "\<exists>outs tsc' ctx'.
           ParallelScan V sched oid () test_thread_states test_scanner ctx = Inr (True, outs, tsc', ctx') \<and>
           map fst outs =
             parallel_for_ranges sched \<lparr>my_begin = 0, my_end = length blocks, my_grainsize = 3\<rparr> \<and>
           (\<forall>out\<in>set outs. snd out = Scanned) \<and>
           total tsc' = of_nat (length (concat blocks))"
proof -
  let ?r = "\<lparr>my_begin = 0, my_end = length blocks, my_grainsize = 3\<rparr>"
  let ?rs = "parallel_for_ranges sched ?r"
  let ?task = "ScanTask_ctor (ucast oid) () test_scanner :: (unit, Counter, nat, 'a) ScanTask"
  have bc: "unat (GetBlockListSize (storage_table cols blocks)) = length blocks"
    using len by (simp add: storage_table_def unat_of_nat32)
  have tbl': "GetTable ctx (ucast (table_id ?task)) = Some (storage_table cols blocks)"
    using tbl widen_narrow_small [OF small] by (simp add: ScanTask_ctor_def)
  have sc: "scanner ?task = test_scanner"
    by (simp add: ScanTask_ctor_def)
  have le: "my_begin ?r \<le> my_end ?r" by simp
  have rs: "\<forall>x\<in>set ?rs. my_begin x \<le> my_end x \<and> my_end x < 2 ^ 32"
  proof
    fix x assume "x \<in> set ?rs"
    then have "x \<in> set (split_ranges sched ?r)"
      by (simp add: parallel_for_ranges_def split: if_splits)
    from split_ranges_bounds [OF le this] len
    show "my_begin x \<le> my_end x \<and> my_end x < 2 ^ 32" by simp
  qed
  have rows: "sum_list (map (rows_in blocks) ?rs) = length (concat blocks)"
  proof (cases "range_empty ?r")
    case True
    then show ?thesis by (simp add: parallel_for_ranges_def range_empty_def)
  next
    case False
    then show ?thesis
      using rows_in_split [OF le, of blocks sched]
      by (simp add: parallel_for_ranges_def rows_in_def slots_before_def)
  qed
  have z: "c (init_state test_thread_states) = 0"
    by (simp add: test_thread_states_def)
  from run_tasks_storage [OF tbl' sc V rs z, of sched]
  obtain outs tsc' ctx' where
    run: "run_tasks V sched ?task ?rs (test_thread_states, ctx) = Inr (outs, tsc', ctx')"
    and tot: "total tsc' = total test_thread_states + of_nat (sum_list (map (rows_in blocks) ?rs))"
    and m: "map fst outs = ?rs" and sn: "\<forall>out\<in>set outs. snd out = Scanned"
    by blast
  have t0: "total test_thread_states = 0"
    by (simp add: total_def ForEach_def test_thread_states_def)
  have "ParallelScan V sched oid () test_thread_states test_scanner ctx = Inr (True, outs, tsc', ctx')"
    by (simp add: ParallelScan_def tbl bc parallel_for_def run Let_def)
  with m sn tot t0 rows show ?thesis by simp
qed

lemma aggregate_tuple_count_storage:
  assumes "GetTable ctx oid = Some (storage_table cols blocks)"
    and "unat oid < 2 ^ 16" and "0 < V" and "length blocks < 2 ^ 32"
  shows "aggregate_tuple_count V sched oid ctx = Inr (of_nat (length (concat blocks)))"
proof -
  from ParallelScan_storage [OF assms, of sched]
  obtain outs tsc' ctx' where
    "ParallelScan V sched oid () test_thread_states test_scanner ctx = Inr (True, outs, tsc', ctx')"
    and "total tsc' = of_nat (length (concat blocks))"
    by blast
  then show ?thesis
    by (simp add: aggregate_tuple_count_def total_def)
qed

text \<open>The parallel-equivalence property on these tables.\<close>

lemma parallel_equals_sequential:
  assumes "GetTable ctx oid = Some (storage_table cols blocks)"
    and "unat oid < 2 ^ 16" and "0 < V" and "length blocks < 2 ^ 32"
  shows "aggregate_tuple_count V sched oid ctx = num_tuples V oid cs ctx \<and>
         num_tuples V oid cs ctx = Inr (of_nat (length (concat blocks)))"
  using aggregate_tuple_count_storage [OF assms] num_tuples_storage [OF assms(1,3,4)]
  by simp

end
